theory Spec2Isabelle
  imports Main "HOL-Library.Sublist" "HOL-Library.AList"
begin

section \<open>Scope extraction from build-script text\<close>

text \<open>
  A JavaScript string is modelled as a \<^typ>\<open>string\<close>, one \<^typ>\<open>char\<close> per code unit.
  \<open>content.indexOf(scopeName)\<close> is the offset of the first occurrence of \<open>scopeName\<close> in
  \<open>content\<close>, or \<open>-1\<close> when there is none.
\<close>

fun indexOf :: "string \<Rightarrow> string \<Rightarrow> int" where
  "indexOf [] searchString = (if searchString = [] then 0 else - 1)"
| "indexOf (c # cs) searchString =
     (if prefix searchString (c # cs) then 0
      else (let k = indexOf cs searchString in if k < 0 then - 1 else k + 1))"

text \<open>
  \<open>content[i]\<close>: the one-character string at offset \<open>i\<close>, and \<open>undefined\<close> (here
  \<^const>\<open>None\<close>) when \<open>i\<close> is not an offset of \<open>content\<close>, as it is for \<open>i = -1\<close>.
\<close>

definition charAt :: "string \<Rightarrow> int \<Rightarrow> char option" where
  "charAt content i =
     (if 0 \<le> i \<and> i < int (length content) then Some (content ! nat i) else None)"

text \<open>
  \<open>result += currCharacter\<close>: string concatenation converts \<open>undefined\<close> to the nine
  characters \<open>undefined\<close>.
\<close>

definition appendCharacter :: "string \<Rightarrow> char option \<Rightarrow> string" where
  "appendCharacter result currCharacter =
     (case currCharacter of None \<Rightarrow> result @ ''undefined'' | Some c \<Rightarrow> result @ [c])"

text \<open>
  The \<open>while (i < content.length)\<close> loop of \<open>getScope\<close>, with its four variables as
  arguments. \<open>openBrackets\<close> is a number that is only incremented and decremented, so an
  \<^typ>\<open>int\<close>; it may become negative.
\<close>

function scopeLoop :: "string \<Rightarrow> int \<Rightarrow> int \<Rightarrow> bool \<Rightarrow> string \<Rightarrow> string" where
  "scopeLoop content i openBrackets foundFirstBracket result =
     (if i < int (length content) then
        (let currCharacter = charAt content i;
             foundFirstBracket1 =
               (if currCharacter = Some CHR ''{'' \<and> openBrackets = 0 then True
                else foundFirstBracket);
             openBrackets1 =
               (if currCharacter = Some CHR ''{'' then openBrackets + 1 else openBrackets);
             openBrackets2 =
               (if currCharacter = Some CHR ''}'' then openBrackets1 - 1 else openBrackets1);
             result1 = appendCharacter result currCharacter
         in if openBrackets2 = 0 \<and> foundFirstBracket1 then result1
            else scopeLoop content (i + 1) openBrackets2 foundFirstBracket1 result1)
      else result)"
  by pat_completeness auto
termination
  by (relation "measure (\<lambda>(content, i, openBrackets, foundFirstBracket, result).
        nat (int (length content) - i))") auto

declare scopeLoop.simps [simp del]

definition getScope :: "string \<Rightarrow> string \<Rightarrow> string" where
  "getScope scopeName content = scopeLoop content (indexOf content scopeName) 0 False []"

text \<open>
  The same loop without any appeal to a termination argument: a run that never leaves the
  loop has the value \<^const>\<open>None\<close>.
\<close>

partial_function (option) scopeLoopRun ::
  "string \<Rightarrow> int \<Rightarrow> int \<Rightarrow> bool \<Rightarrow> string \<Rightarrow> string option" where
  "scopeLoopRun content i openBrackets foundFirstBracket result =
     (if i < int (length content) then
        (let currCharacter = charAt content i;
             foundFirstBracket1 =
               (if currCharacter = Some CHR ''{'' \<and> openBrackets = 0 then True
                else foundFirstBracket);
             openBrackets1 =
               (if currCharacter = Some CHR ''{'' then openBrackets + 1 else openBrackets);
             openBrackets2 =
               (if currCharacter = Some CHR ''}'' then openBrackets1 - 1 else openBrackets1);
             result1 = appendCharacter result currCharacter
         in if openBrackets2 = 0 \<and> foundFirstBracket1 then Some result1
            else scopeLoopRun content (i + 1) openBrackets2 foundFirstBracket1 result1)
      else Some result)"

declare scopeLoopRun.simps [code]

definition getScopeRun :: "string \<Rightarrow> string \<Rightarrow> string option" where
  "getScopeRun scopeName content =
     scopeLoopRun content (indexOf content scopeName) 0 False []"

definition getIncludeGradleCompileDependenciesScope :: "string \<Rightarrow> string list" where
  "getIncludeGradleCompileDependenciesScope includeGradleFileContent =
     (let indexOfDependenciesScope = indexOf includeGradleFileContent ''dependencies'';
          result = []
      in if indexOfDependenciesScope = - 1 then result
         else
           (let indexOfRepositoriesScope = indexOf includeGradleFileContent ''repositories'';
                result1 =
                  (if indexOfRepositoriesScope \<ge> 0
                   then result @ [getScope ''repositories'' includeGradleFileContent]
                   else result);
                dependenciesScope = getScope ''dependencies'' includeGradleFileContent
            in result1 @ [dependenciesScope]))"

subsection \<open>Vocabulary for stating what the scan returns\<close>

text \<open>
  The brace depth of a text: the number of opening braces minus the number of closing
  braces in it.
\<close>

fun depth :: "string \<Rightarrow> int" where
  "depth [] = 0"
| "depth (c # cs) =
     (if c = CHR ''{'' then 1 else if c = CHR ''}'' then - 1 else 0) + depth cs"

definition braceFree :: "string \<Rightarrow> bool" where
  "braceFree s \<longleftrightarrow> CHR ''{'' \<notin> set s \<and> CHR ''}'' \<notin> set s"

text \<open>
  A text has opened a block when one of its opening braces stands at depth zero, and a
  block closes at offset \<open>k\<close> of \<open>s\<close> when the text up to and including offset \<open>k\<close>
  has opened a block and is back at depth zero.
\<close>

definition opened :: "string \<Rightarrow> bool" where
  "opened s \<longleftrightarrow> (\<exists>j \<in> {..<length s}. s ! j = CHR ''{'' \<and> depth (take j s) = 0)"

definition closesBlock :: "string \<Rightarrow> nat \<Rightarrow> bool" where
  "closesBlock s k \<longleftrightarrow>
     k < length s \<and> depth (take (Suc k) s) = 0 \<and> opened (take (Suc k) s)"

text \<open>
  The loop of \<open>getScope\<close> once more, by recursion on the text that is still to be read;
  \<open>scopeLoop_scanFrom\<close> below shows that it computes what \<^const>\<open>scopeLoop\<close> computes
  from a valid offset.
\<close>

fun scanFrom :: "string \<Rightarrow> int \<Rightarrow> bool \<Rightarrow> string \<Rightarrow> string" where
  "scanFrom [] openBrackets foundFirstBracket result = result"
| "scanFrom (c # cs) openBrackets foundFirstBracket result =
     (let foundFirstBracket1 = (foundFirstBracket \<or> (c = CHR ''{'' \<and> openBrackets = 0));
          openBrackets2 = openBrackets + depth [c]
      in if openBrackets2 = 0 \<and> foundFirstBracket1 then result @ [c]
         else scanFrom cs openBrackets2 foundFirstBracket1 (result @ [c]))"

section \<open>Manifest merging\<close>

subsection \<open>JavaScript values as the parser yields them\<close>

text \<open>
  The tree that \<open>parseString\<close> hands over is built from strings, plain objects and arrays,
  and the callback may also receive \<open>null\<close> or \<open>undefined\<close>. An object is the list of its
  own enumerable data properties in enumeration order; an array is an object whose keys
  are its indices. \<open>JObj\<close> is an object with the prototype it was created with
  (\<open>Object.prototype\<close>, or \<open>Array.prototype\<close> for an array); \<open>JProto kind p props\<close> is an
  object whose prototype is \<open>p\<close>, an object or \<open>null\<close>, as an assignment to \<open>__proto__\<close>
  leaves it. The tree is a value: two places of a parsed tree never hold the same object.
\<close>

datatype objkind = PlainObject | ArrayObject

datatype jsval =
    JUndefined
  | JNull
  | JStr string
  | JObj objkind "(string \<times> jsval) list"
  | JProto objkind jsval "(string \<times> jsval) list"

text \<open>
  What a call throws: the value the parser rejected the text with (any JavaScript
  value), or the \<open>TypeError\<close> of the runtime for a property access on \<open>null\<close> or
  \<open>undefined\<close>.
\<close>

datatype failure = Rejected jsval | TypeError

definition andThen :: "'x + 'a \<Rightarrow> ('a \<Rightarrow> 'x + 'b) \<Rightarrow> 'x + 'b" where
  "andThen r f = (case r of Inl e \<Rightarrow> Inl e | Inr v \<Rightarrow> f v)"

text \<open>\<open>if (v)\<close>: the empty string, \<open>null\<close> and \<open>undefined\<close> are falsy, every object is truthy.\<close>

fun truthy :: "jsval \<Rightarrow> bool" where
  "truthy JUndefined = False"
| "truthy JNull = False"
| "truthy (JStr s) = (s \<noteq> [])"
| "truthy (JObj kind props) = True"
| "truthy (JProto kind p props) = True"

text \<open>The decimal name of an index, as the keys of a string's characters are written.\<close>

fun decimal :: "nat \<Rightarrow> string" where
  "decimal n =
     (if n < 10 then [char_of (48 + n)]
      else decimal (n div 10) @ [char_of (48 + n mod 10)])"

declare decimal.simps [simp del]

text \<open>
  The data property that a lookup of \<open>key\<close> finds on an object or further up its
  prototype chain. \<open>Object.prototype\<close> and \<open>Array.prototype\<close> have no enumerable property,
  and their other properties are not under a key that this code reads, \<open>__proto__\<close> apart.
\<close>

fun findProp :: "jsval \<Rightarrow> string \<Rightarrow> jsval option" where
  "findProp (JObj kind props) key = map_of props key"
| "findProp (JProto kind p props) key =
     (case map_of props key of Some v \<Rightarrow> Some v | None \<Rightarrow> findProp p key)"
| "findProp v key = None"

text \<open>
  Whether the prototype chain of an object ends in \<open>Object.prototype\<close>, which holds the
  accessor \<open>__proto__\<close>, and the prototype that the getter of that accessor returns.
  \<open>Object.prototype\<close> is seen as an object without properties whose prototype is
  \<open>null\<close>.
\<close>

fun reachesObjectPrototype :: "jsval \<Rightarrow> bool" where
  "reachesObjectPrototype (JObj kind props) = True"
| "reachesObjectPrototype (JProto kind p props) = reachesObjectPrototype p"
| "reachesObjectPrototype v = False"

fun prototypeOf :: "jsval \<Rightarrow> jsval" where
  "prototypeOf (JProto kind p props) = p"
| "prototypeOf (JObj PlainObject props) = JProto PlainObject JNull []"
| "prototypeOf (JObj ArrayObject props) = JProto ArrayObject (JProto PlainObject JNull []) []"
| "prototypeOf v = JUndefined"

text \<open>
  \<open>v[key]\<close> as an expression. A string has its characters under their indices and nothing
  under any other key read here. On an object, \<open>__proto__\<close> that is no data property goes
  to the getter.
\<close>

fun getProp :: "jsval \<Rightarrow> string \<Rightarrow> failure + jsval" where
  "getProp JUndefined key = Inl TypeError"
| "getProp JNull key = Inl TypeError"
| "getProp (JStr s) key =
     Inr (case find (\<lambda>i. decimal i = key) [0..<length s] of
            Some i \<Rightarrow> JStr [s ! i]
          | None \<Rightarrow> JUndefined)"
| "getProp obj key =
     Inr (case findProp obj key of
            Some v \<Rightarrow> v
          | None \<Rightarrow>
              if key = ''__proto__'' \<and> reachesObjectPrototype obj then prototypeOf obj
              else JUndefined)"

text \<open>
  \<open>target[key] = v\<close> in strict-mode code (the file is a module), giving the target as it
  is after the write. Writing to \<open>null\<close>, \<open>undefined\<close> or a string primitive throws. On an
  object, \<open>__proto__\<close> that is no data property goes to the setter of \<open>Object.prototype\<close>
  when the chain reaches it: an object or \<open>null\<close> becomes the prototype of the target and
  any other value is ignored. Every other write makes or overwrites an own property: an
  existing property keeps its place, a new one goes last.
\<close>

fun isObject :: "jsval \<Rightarrow> bool" where
  "isObject (JObj kind props) = True"
| "isObject (JProto kind p props) = True"
| "isObject v = False"

definition isObjectOrNull :: "jsval \<Rightarrow> bool" where
  "isObjectOrNull v \<longleftrightarrow> isObject v \<or> v = JNull"

fun ownProps :: "jsval \<Rightarrow> (string \<times> jsval) list" where
  "ownProps (JObj kind props) = props"
| "ownProps (JProto kind p props) = props"
| "ownProps v = []"

fun objKind :: "jsval \<Rightarrow> objkind" where
  "objKind (JObj kind props) = kind"
| "objKind (JProto kind p props) = kind"
| "objKind v = PlainObject"

fun withOwnProps :: "jsval \<Rightarrow> (string \<times> jsval) list \<Rightarrow> jsval" where
  "withOwnProps (JObj kind props) props1 = JObj kind props1"
| "withOwnProps (JProto kind p props) props1 = JProto kind p props1"
| "withOwnProps v props1 = v"

fun setProp :: "jsval \<Rightarrow> string \<Rightarrow> jsval \<Rightarrow> failure + jsval" where
  "setProp JUndefined key v = Inl TypeError"
| "setProp JNull key v = Inl TypeError"
| "setProp (JStr s) key v = Inl TypeError"
| "setProp target key v =
     (if key = ''__proto__'' \<and> findProp target key = None \<and> reachesObjectPrototype target
      then Inr (if isObjectOrNull v then JProto (objKind target) v (ownProps target)
                else target)
      else Inr (withOwnProps target (AList.update key v (ownProps target))))"

text \<open>
  The keys \<open>for (const prop in v)\<close> runs through: the own keys of an object, then the keys
  of its prototype chain that are not among them; the indices of a string; none for
  \<open>null\<close> and \<open>undefined\<close>.
\<close>

fun objectKeys :: "jsval \<Rightarrow> string list" where
  "objectKeys (JObj kind props) = map fst props"
| "objectKeys (JProto kind p props) =
     map fst props @ filter (\<lambda>k. k \<notin> fst ` set props) (objectKeys p)"
| "objectKeys v = []"

fun forInKeys :: "jsval \<Rightarrow> string list" where
  "forInKeys (JStr s) = map decimal [0..<length s]"
| "forInKeys v = objectKeys v"

subsection \<open>updateManifestContent\<close>

text \<open>
  The loop \<open>for (const prop in xml) { newManifest.manifest[prop] = xml[prop]; }\<close>, with
  the keys still to visit and the object \<open>newManifest.manifest\<close> built so far.
\<close>

fun copyProps :: "jsval \<Rightarrow> string list \<Rightarrow> jsval \<Rightarrow> failure + jsval" where
  "copyProps xml [] manifest = Inr manifest"
| "copyProps xml (prop # props) manifest =
     andThen (getProp xml prop) (\<lambda>v.
     andThen (setProp manifest prop v) (\<lambda>manifest1.
     copyProps xml props manifest1))"

text \<open>
  An object after the object that a lookup of \<open>key\<close> finds on it has changed into \<open>v\<close>:
  the property is replaced where the lookup finds it, among the own properties or on the
  prototype chain.
\<close>

fun replaceFound :: "jsval \<Rightarrow> string \<Rightarrow> jsval \<Rightarrow> jsval" where
  "replaceFound (JObj kind props) key v =
     (if key \<in> fst ` set props then JObj kind (AList.update key v props)
      else JObj kind props)"
| "replaceFound (JProto kind p props) key v =
     (if key \<in> fst ` set props then JProto kind p (AList.update key v props)
      else JProto kind (replaceFound p key v) props)"
| "replaceFound t key v = t"

text \<open>
  The body of \<open>updateManifestContent\<close> between the parser and the builder, from the parsed
  \<open>xml\<close> to the object \<open>newManifest\<close>. The write
  \<open>newManifest.manifest["$"]["package"] = packageName\<close> changes the object that
  \<open>newManifest.manifest["$"]\<close> refers to, so \<open>newManifest.manifest\<close> shows the change where
  it has that object.
\<close>

definition updateManifestObject :: "jsval \<Rightarrow> string \<Rightarrow> failure + jsval" where
  "updateManifestObject xml0 defaultPackageName =
     andThen (getProp xml0 ''manifest'') (\<lambda>m.
     andThen
       (if truthy m then
          andThen (getProp m ''$'') (\<lambda>attrs.
          andThen (getProp attrs ''package'') (\<lambda>p.
          Inr (if truthy p then p else JStr defaultPackageName, m)))
        else Inr (JStr defaultPackageName, xml0))
       (\<lambda>(packageName, xml).
     andThen (copyProps xml (forInKeys xml) (JObj PlainObject [])) (\<lambda>manifest.
     andThen (getProp manifest ''$'') (\<lambda>attrs.
     andThen (setProp attrs ''package'' packageName) (\<lambda>attrs1.
     Inr (JObj PlainObject [(''manifest'', replaceFound manifest ''$'' attrs1)]))))))"

text \<open>
  \<open>updateManifestContent\<close>. The parser (\<open>parseString\<close> behind \<open>getXml\<close>) and the builder
  (\<open>new Builder().buildObject\<close>) belong to the \<open>xml2js\<close> package and are parameters. A
  rejected promise of \<open>getXml\<close> makes the \<open>await\<close> throw the rejection value.
\<close>

definition getXml :: "(string \<Rightarrow> jsval + jsval) \<Rightarrow> string \<Rightarrow> failure + jsval" where
  "getXml parseString stringContent =
     (case parseString stringContent of Inl err \<Rightarrow> Inl (Rejected err) | Inr result \<Rightarrow> Inr result)"

definition updateManifestContent ::
  "(string \<Rightarrow> jsval + jsval) \<Rightarrow> (jsval \<Rightarrow> string) \<Rightarrow> string \<Rightarrow> string \<Rightarrow> failure + string" where
  "updateManifestContent parseString buildObject oldManifestContent defaultPackageName =
     andThen (getXml parseString oldManifestContent) (\<lambda>xml.
     andThen (updateManifestObject xml defaultPackageName) (\<lambda>newManifest.
     Inr (buildObject newManifest)))"

text \<open>The \<open>package\<close> attribute of the \<open>manifest\<close> node of a tree.\<close>

definition packageOf :: "jsval \<Rightarrow> failure + jsval" where
  "packageOf tree =
     andThen (getProp tree ''manifest'') (\<lambda>m.
     andThen (getProp m ''$'') (\<lambda>attrs.
     getProp attrs ''package''))"

subsection \<open>createManifestContent and the static template\<close>

text \<open>
  \<open>MANIFEST_ROOT\<close> is one object for the whole class, and \<open>createManifestContent\<close> puts
  a reference to it into \<open>newManifest\<close>. Objects therefore live in a store here: an address
  is an index into the list of objects, and a property holds a string or a reference.
\<close>

datatype hval = HUndefined | HStr string | HRef nat

type_synonym hobj = "(string \<times> hval) list"

record pstate =
  heap :: "hobj list"
  MANIFEST_ROOT :: hval

definition initialState :: pstate where
  "initialState =
     \<lparr> heap = [[(''xmlns:android'', HStr ''http://schemas.android.com/apk/res/android'')],
               [(''$'', HRef 0)]],
       MANIFEST_ROOT = HRef 1 \<rparr>"

fun hget :: "hobj list \<Rightarrow> hval \<Rightarrow> string \<Rightarrow> failure + hval" where
  "hget h (HRef a) key =
     (if a < length h
      then Inr (case map_of (h ! a) key of Some v \<Rightarrow> v | None \<Rightarrow> HUndefined)
      else Inl TypeError)"
| "hget h (HStr s) key = Inr HUndefined"
| "hget h HUndefined key = Inl TypeError"

fun hset :: "hobj list \<Rightarrow> hval \<Rightarrow> string \<Rightarrow> hval \<Rightarrow> failure + hobj list" where
  "hset h (HRef a) key v =
     (if a < length h then Inr (h[a := AList.update key v (h ! a)]) else Inl TypeError)"
| "hset h target key v = Inl TypeError"

text \<open>
  The tree the builder sees when it walks the store from a value. The first argument
  bounds the depth of the walk; a store of \<open>n\<close> objects without a cycle needs no more
  than \<open>n\<close>.
\<close>

fun reify :: "nat \<Rightarrow> hobj list \<Rightarrow> hval \<Rightarrow> jsval" where
  "reify n h HUndefined = JUndefined"
| "reify n h (HStr s) = JStr s"
| "reify 0 h (HRef a) = JUndefined"
| "reify (Suc n) h (HRef a) =
     (if a < length h
      then JObj PlainObject (map (\<lambda>kv. (fst kv, reify n h (snd kv))) (h ! a))
      else JUndefined)"

definition createManifestContent ::
  "(jsval \<Rightarrow> string) \<Rightarrow> pstate \<Rightarrow> string \<Rightarrow> failure + string \<times> pstate" where
  "createManifestContent buildObject st packageName =
     (let newManifest = HRef (length (heap st));
          h1 = heap st @ [[(''manifest'', MANIFEST_ROOT st)]]
      in andThen (hget h1 newManifest ''manifest'') (\<lambda>m.
         andThen (hget h1 m ''$'') (\<lambda>attrs.
         andThen (hset h1 attrs ''package'' (HStr packageName)) (\<lambda>h2.
         Inr (buildObject (reify (length h2) h2 newManifest), st\<lparr>heap := h2\<rparr>)))))"

text \<open>The tree under the static \<open>MANIFEST_ROOT\<close> in a state.\<close>

definition manifestRootValue :: "pstate \<Rightarrow> jsval" where
  "manifestRootValue st = reify (length (heap st)) (heap st) (MANIFEST_ROOT st)"

section \<open>Properties of the scope extractor\<close>

subsection \<open>\<open>indexOf\<close> finds the first occurrence\<close>

lemma indexOf_bounds: "- 1 \<le> indexOf c n \<and> indexOf c n \<le> int (length c)"
  by (induction c) (auto simp: Let_def)

lemma indexOf_neg_iff: "indexOf c n < 0 \<longleftrightarrow> \<not> sublist n c"
  by (induction c) (auto simp: Let_def sublist_Cons_right)

lemma indexOf_notFound_iff: "indexOf c n = - 1 \<longleftrightarrow> \<not> sublist n c"
  using indexOf_neg_iff[of c n] indexOf_bounds[of c n] by linarith

lemma indexOf_found_iff: "0 \<le> indexOf c n \<longleftrightarrow> sublist n c"
  using indexOf_neg_iff[of c n] by linarith

lemma indexOf_first:
  "indexOf c n = int i \<Longrightarrow> prefix n (drop i c) \<and> (\<forall>j<i. \<not> prefix n (drop j c))"
proof (induction c arbitrary: i)
  case Nil
  then show ?case by (auto split: if_splits)
next
  case (Cons x xs)
  show ?case
  proof (cases "prefix n (x # xs)")
    case True
    with Cons.prems show ?thesis by simp
  next
    case False
    with Cons.prems obtain i' where i': "i = Suc i'" "indexOf xs n = int i'"
      by (cases i) (auto simp: Let_def split: if_splits)
    from Cons.IH[OF i'(2)] False i'(1) show ?thesis
      by (auto simp: less_Suc_eq_0_disj)
  qed
qed

lemma indexOf_eq:
  assumes "prefix n (drop i c)" and "i \<le> length c" and "\<forall>j<i. \<not> prefix n (drop j c)"
  shows "indexOf c n = int i"
proof -
  from assms(1) obtain ss where "drop i c = n @ ss" by (auto simp: prefix_def)
  then have "c = take i c @ n @ ss" by (metis append_take_drop_id)
  then have "sublist n c" unfolding sublist_def by blast
  then have "0 \<le> indexOf c n" by (simp add: indexOf_found_iff)
  then obtain k where k: "indexOf c n = int k" using nonneg_int_cases by blast
  from indexOf_first[OF k] have f: "prefix n (drop k c)" "\<forall>j<k. \<not> prefix n (drop j c)"
    by auto
  have "\<not> k < i" using assms(3) f(1) by blast
  moreover have "\<not> i < k" using f(2) assms(1) by blast
  ultimately show ?thesis using k by simp
qed

subsection \<open>The loop, read from the remaining text\<close>

lemma depth_append: "depth (xs @ ys) = depth xs + depth ys"
  by (induction xs) auto

lemma opened_snoc:
  "opened (p @ [c]) \<longleftrightarrow> opened p \<or> (c = CHR ''{'' \<and> depth p = 0)"
  by (auto simp: opened_def nth_append less_Suc_eq lessThan_Suc)

lemma scopeLoop_scanFrom:
  "0 \<le> i \<Longrightarrow> scopeLoop content i ob ff res = scanFrom (drop (nat i) content) ob ff res"
proof (induction content i ob ff res rule: scopeLoop.induct)
  case (1 content i ob ff res)
  show ?case
  proof (cases "i < int (length content)")
    case False
    then show ?thesis by (subst scopeLoop.simps) simp
  next
    case True
    with "1.prems" have d: "drop (nat i) content = content ! nat i # drop (nat (i + 1)) content"
      by (simp add: Cons_nth_drop_Suc nat_add_distrib)
    from True "1.prems" have c: "charAt content i = Some (content ! nat i)"
      by (simp add: charAt_def)
    show ?thesis
      using "1.IH" True "1.prems"
      by (subst scopeLoop.simps) (auto simp: d c Let_def appendCharacter_def)
  qed
qed

lemma getScope_scanFrom:
  "sublist scopeName content \<Longrightarrow>
   getScope scopeName content =
     scanFrom (drop (nat (indexOf content scopeName)) content) 0 False []"
  using indexOf_neg_iff[of content scopeName]
  by (simp add: getScope_def scopeLoop_scanFrom)

text \<open>
  When the scope name does not occur the scan starts at index \<open>-1\<close>: the first iteration
  reads \<open>undefined\<close>, appends it as text, and the scan goes on from the start of the text.
\<close>

lemma getScope_notFound:
  "\<not> sublist scopeName content \<Longrightarrow>
   getScope scopeName content = scanFrom content 0 False ''undefined''"
proof -
  assume "\<not> sublist scopeName content"
  then have i: "indexOf content scopeName = - 1"
    by (simp add: indexOf_notFound_iff)
  have "scopeLoop content (- 1) 0 False [] = scopeLoop content 0 0 False ''undefined''"
    by (subst scopeLoop.simps) (simp add: charAt_def appendCharacter_def)
  also have "\<dots> = scanFrom content 0 False ''undefined''"
    using scopeLoop_scanFrom[of 0 content 0 False "''undefined''"] by simp
  finally show ?thesis by (simp add: getScope_def i)
qed

lemma scopeLoopRun_total:
  "scopeLoopRun content i ob ff res = Some (scopeLoop content i ob ff res)"
proof (induction content i ob ff res rule: scopeLoop.induct)
  case (1 content i ob ff res)
  show ?case
    using "1.IH"
    by (subst scopeLoopRun.simps, subst scopeLoop.simps) (auto simp: Let_def)
qed

lemma scanFrom_braceFree:
  "braceFree xs \<Longrightarrow> scanFrom (xs @ ys) 0 False res = scanFrom ys 0 False (res @ xs)"
  by (induction xs arbitrary: res) (auto simp: braceFree_def)

lemma scanFrom_inside:
  "\<forall>n \<in> {..length body}. 0 < ob + depth (take n body) \<Longrightarrow>
   scanFrom (body @ ys) ob ff res = scanFrom ys (ob + depth body) ff (res @ body)"
proof (induction body arbitrary: ob res)
  case Nil
  then show ?case by simp
next
  case (Cons c cs)
  from Cons.prems[rule_format, of 0] have ob: "0 < ob" by simp
  from Cons.prems[rule_format, of 1] have ob1: "0 < ob + depth [c]" by simp
  have "\<forall>n \<in> {..length cs}. 0 < (ob + depth [c]) + depth (take n cs)"
  proof
    fix n assume "n \<in> {..length cs}"
    then have "Suc n \<in> {..length (c # cs)}" by simp
    from Cons.prems[rule_format, OF this] show "0 < (ob + depth [c]) + depth (take n cs)"
      by (simp add: algebra_simps)
  qed
  from Cons.IH[OF this, of "res @ [c]"] ob ob1 show ?case
    by (simp add: Let_def algebra_simps)
qed

lemma scanFrom_never:
  "\<forall>k<length xs. \<not> closesBlock (p @ xs) (length p + k) \<Longrightarrow>
   scanFrom xs (depth p) (opened p) res = res @ xs"
proof (induction xs arbitrary: p res)
  case Nil
  then show ?case by simp
next
  case (Cons c cs)
  have nostop: "\<not> (depth (p @ [c]) = 0 \<and> opened (p @ [c]))"
    using Cons.prems[rule_format, of 0] by (simp add: closesBlock_def)
  have "\<forall>k<length cs. \<not> closesBlock ((p @ [c]) @ cs) (length (p @ [c]) + k)"
    using Cons.prems by auto
  from Cons.IH[OF this, of "res @ [c]"] nostop show ?case
    by (auto simp: depth_append opened_snoc Let_def)
qed

lemma getScope_nested_block_from_indexOf:
  assumes "sublist scopeName content"
    and "drop (nat (indexOf content scopeName)) content = lead @ ''{'' @ body @ ''}'' @ rest"
    and "braceFree lead"
    and "\<forall>n \<in> {..length body}. 0 \<le> depth (take n body)"
    and "depth body = 0"
  shows "getScope scopeName content = lead @ ''{'' @ body @ ''}''"
proof -
  have inside: "\<forall>n \<in> {..length body}. 0 < 1 + depth (take n body)"
  proof
    fix n assume "n \<in> {..length body}"
    with assms(4) have "0 \<le> depth (take n body)" by blast
    then show "0 < 1 + depth (take n body)" by simp
  qed
  have "scanFrom (lead @ ''{'' @ body @ ''}'' @ rest) 0 False []
        = scanFrom (''{'' @ body @ ''}'' @ rest) 0 False lead"
    using scanFrom_braceFree[OF assms(3), of "''{'' @ body @ ''}'' @ rest" "[]"] by simp
  also have "\<dots> = scanFrom (body @ ''}'' @ rest) 1 True (lead @ ''{'')"
    by simp
  also have "\<dots> = scanFrom (''}'' @ rest) (1 + depth body) True ((lead @ ''{'') @ body)"
    by (rule scanFrom_inside[OF inside])
  also have "\<dots> = lead @ ''{'' @ body @ ''}''"
    using assms(5) by simp
  finally show ?thesis using assms(1,2) by (simp add: getScope_scanFrom)
qed

subsection \<open>Claims about the scope extractor\<close>

text \<open>
  C10. \<open>getScope\<close> returns for every text and every scope name, also when the scope
  name does not occur and the scan starts at index \<open>-1\<close>: the loop run without any
  termination argument (\<^const>\<open>getScopeRun\<close>, where \<^const>\<open>None\<close> stands for a run that
  never leaves the loop) always yields a result, the one \<^const>\<open>getScope\<close> computes. Each
  iteration breaks or increments the index, so \<open>content.length - i\<close> decreases.
\<close>

theorem getScope_terminates:
  "getScopeRun scopeName content = Some (getScope scopeName content)"
  by (simp add: getScopeRun_def getScope_def scopeLoopRun_total)

theorem getScope_terminates_witness:
  "getScopeRun ''productFlavors'' ''android { }'' = Some ''undefinedandroid { }''"
proof -
  have "getScope ''productFlavors'' ''android { }'' = ''undefinedandroid { }''"
    by code_simp
  with getScope_terminates[of "''productFlavors''" "''android { }''"] show ?thesis
    by (simp only:)
qed

text \<open>
  C1, as the claim states it, fails. \<open>getScope\<close> has no way to signal absence: it
  returns the string it has accumulated. For a scope name that occurs with an opening
  brace that is never closed it returns the partial span up to the end of the text, and
  for a scope name that does not occur it returns a text as well.
\<close>

theorem getScope_returns_text_counterexample:
  "getScope ''dependencies'' ''dependencies { compile 'x' '' = ''dependencies { compile 'x' ''
   \<and> getScope ''dependencies'' ''android { }'' = ''undefinedandroid { }''"
  by code_simp

text \<open>
  C1, amended. When the scope name occurs in the text and no block closes in the text
  that starts at the first occurrence of the scope name, \<open>getScope\<close> returns that whole
  remaining text (a partial span), not absence.
\<close>

theorem getScope_unclosed_returns_remainder:
  assumes "sublist scopeName content"
    and "remainder = drop (nat (indexOf content scopeName)) content"
    and "\<forall>k \<in> {..<length remainder}. \<not> closesBlock remainder k"
  shows "getScope scopeName content = remainder"
proof -
  have "\<forall>k<length remainder. \<not> closesBlock ([] @ remainder) (length ([] :: string) + k)"
    using assms(3) by simp
  from scanFrom_never[OF this, of "[]"] have "scanFrom remainder 0 False [] = remainder"
    by (simp add: opened_def)
  with assms(1,2) show ?thesis by (simp add: getScope_scanFrom)
qed

theorem getScope_unclosed_returns_remainder_witness:
  "getScope ''dependencies'' ''apply x; dependencies { compile 'x' '' = ''dependencies { compile 'x' ''"
proof -
  have h1: "sublist ''dependencies'' ''apply x; dependencies { compile 'x' ''"
    by code_simp
  have h2: "''dependencies { compile 'x' '' =
      drop (nat (indexOf ''apply x; dependencies { compile 'x' '' ''dependencies''))
        ''apply x; dependencies { compile 'x' ''"
    by code_simp
  have h3: "\<forall>k \<in> {..<length ''dependencies { compile 'x' ''}.
      \<not> closesBlock ''dependencies { compile 'x' '' k"
    by (simp add: lessThan_Suc closesBlock_def opened_def)
  show ?thesis
    by (rule getScope_unclosed_returns_remainder[OF h1 h2 h3])
qed

text \<open>
  C7. Let the text consist of a first part, at no offset of which an occurrence of the
  scope name starts, a lead that begins with the scope name and has no braces, an opening brace, a
  body whose braces are nested properly (no prefix of the body closes more braces than it
  opens, and the body as a whole is balanced), the closing brace and any rest. So the
  lead begins at the first occurrence of the scope name. Then \<open>getScope\<close> returns the
  lead, the opening brace, the full body with its nested blocks, and the closing brace
  that brings the depth back to zero: the span starts at the first occurrence of the
  scope name and does not stop at an inner closing brace.
\<close>

theorem getScope_nested_block:
  assumes "content = before @ lead @ ''{'' @ body @ ''}'' @ rest"
    and "prefix scopeName lead"
    and "\<forall>j \<in> {..<length before}. \<not> prefix scopeName (drop j content)"
    and "braceFree lead"
    and "\<forall>n \<in> {..length body}. 0 \<le> depth (take n body)"
    and "depth body = 0"
  shows "getScope scopeName content = lead @ ''{'' @ body @ ''}''"
proof -
  have d: "drop (length before) content = lead @ ''{'' @ body @ ''}'' @ rest"
    using assms(1) by simp
  from assms(2) have p: "prefix scopeName (drop (length before) content)"
    unfolding d by (rule prefix_prefix)
  have "indexOf content scopeName = int (length before)"
  proof (rule indexOf_eq[OF p])
    show "length before \<le> length content" using assms(1) by simp
    show "\<forall>j<length before. \<not> prefix scopeName (drop j content)"
      using assms(3) by simp
  qed
  then have i: "nat (indexOf content scopeName) = length before"
    and s: "sublist scopeName content"
    using indexOf_found_iff[of content scopeName] by simp_all
  show ?thesis
    by (rule getScope_nested_block_from_indexOf[OF s _ assms(4,5,6)]) (simp add: i d)
qed

theorem getScope_nested_block_witness:
  "getScope ''dependencies''
     ''android { } dependencies { compile 'x'; nested { inner } } repositories { }''
     = ''dependencies { compile 'x'; nested { inner } }''"
proof -
  have h1: "''android { } dependencies { compile 'x'; nested { inner } } repositories { }''
      = ''android { } '' @ ''dependencies '' @ ''{'' @ '' compile 'x'; nested { inner } ''
        @ ''}'' @ '' repositories { }''"
    by simp
  have h2: "prefix ''dependencies'' ''dependencies ''"
    by simp
  have h3: "\<forall>j \<in> {..<length ''android { } ''}. \<not> prefix ''dependencies''
      (drop j ''android { } dependencies { compile 'x'; nested { inner } } repositories { }'')"
    by (simp add: lessThan_Suc)
  have h4: "braceFree ''dependencies ''"
    by (simp add: braceFree_def)
  have h5: "\<forall>n \<in> {..length '' compile 'x'; nested { inner } ''}.
      0 \<le> depth (take n '' compile 'x'; nested { inner } '')"
    by (simp add: atMost_Suc)
  have h6: "depth '' compile 'x'; nested { inner } '' = 0"
    by simp
  from getScope_nested_block[OF h1 h2 h3 h4 h5 h6] show ?thesis
    by (simp only: append.simps)
qed

text \<open>
  C6. \<open>getIncludeGradleCompileDependenciesScope\<close> returns the empty sequence when
  \<open>dependencies\<close> does not occur in the text (whether or not \<open>repositories\<close> does), the
  one-element sequence of the dependencies block when only \<open>dependencies\<close> occurs, and
  the repositories block followed by the dependencies block when both occur. A block is
  what \<open>getScope\<close> returns for the name.
\<close>

theorem compileDependenciesScope_cases:
  "getIncludeGradleCompileDependenciesScope content =
     (if \<not> sublist ''dependencies'' content then []
      else if sublist ''repositories'' content
        then [getScope ''repositories'' content, getScope ''dependencies'' content]
      else [getScope ''dependencies'' content])"
  by (simp add: getIncludeGradleCompileDependenciesScope_def Let_def
      indexOf_notFound_iff indexOf_found_iff)

theorem compileDependenciesScope_cases_witness:
  "getIncludeGradleCompileDependenciesScope ''repositories { jcenter() }''  = []
   \<and> getIncludeGradleCompileDependenciesScope ''dependencies { compile 'x' }'' =
       [''dependencies { compile 'x' }'']
   \<and> getIncludeGradleCompileDependenciesScope
        ''dependencies { compile 'x' } repositories { jcenter() }'' =
       [''repositories { jcenter() }'', ''dependencies { compile 'x' }'']"
proof -
  have a: "\<not> sublist ''dependencies'' ''repositories { jcenter() }''"
    by code_simp
  have b: "sublist ''dependencies'' ''dependencies { compile 'x' }''"
    "\<not> sublist ''repositories'' ''dependencies { compile 'x' }''"
    "getScope ''dependencies'' ''dependencies { compile 'x' }'' = ''dependencies { compile 'x' }''"
    by code_simp+
  have c: "sublist ''dependencies'' ''dependencies { compile 'x' } repositories { jcenter() }''"
    "sublist ''repositories'' ''dependencies { compile 'x' } repositories { jcenter() }''"
    "getScope ''dependencies'' ''dependencies { compile 'x' } repositories { jcenter() }''
       = ''dependencies { compile 'x' }''"
    "getScope ''repositories'' ''dependencies { compile 'x' } repositories { jcenter() }''
       = ''repositories { jcenter() }''"
    by code_simp+
  show ?thesis
    unfolding compileDependenciesScope_cases
    by (simp only: a b c if_True if_False not_True_eq_False not_False_eq_True simp_thms)
qed

section \<open>Properties of the manifest merger\<close>

subsection \<open>Property access and the copy loop\<close>

lemma andThen_Inr [simp]: "andThen (Inr v) f = f v"
  by (simp add: andThen_def)

lemma andThen_Inl [simp]: "andThen (Inl e) f = Inl e"
  by (simp add: andThen_def)

lemma andThen_eq_Inr:
  "andThen r f = Inr y \<longleftrightarrow> (\<exists>v. r = Inr v \<and> f v = Inr y)"
  by (cases r) simp_all

lemma isObject_withOwnProps [simp]: "isObject (withOwnProps t ps) = isObject t"
  by (cases t) simp_all

lemma ownProps_withOwnProps [simp]: "isObject t \<Longrightarrow> ownProps (withOwnProps t ps) = ps"
  by (cases t) simp_all

lemma setProp_Inr_object: "setProp t key v = Inr r \<Longrightarrow> isObject t"
  by (cases t) simp_all

lemma setProp_plain_key:
  "isObject t \<Longrightarrow> key \<noteq> ''__proto__'' \<Longrightarrow>
   setProp t key v = Inr (withOwnProps t (AList.update key v (ownProps t)))"
  by (cases t) simp_all

lemma setProp_object:
  assumes "isObject t"
  shows "\<exists>r. setProp t key v = Inr r \<and> isObject r
      \<and> (\<forall>x. x \<noteq> ''__proto__'' \<longrightarrow>
            map_of (ownProps r) x = (if x = key then Some v else map_of (ownProps t) x))"
  using assms by (cases t) (auto simp: update_conv')

lemma copyProps_result:
  "isObject acc \<Longrightarrow> copyProps xml keys acc = Inr r \<Longrightarrow>
   isObject r
   \<and> (\<forall>x v. x \<noteq> ''__proto__'' \<longrightarrow> x \<in> set keys \<longrightarrow> getProp xml x = Inr v \<longrightarrow>
         map_of (ownProps r) x = Some v)
   \<and> (\<forall>x. x \<noteq> ''__proto__'' \<longrightarrow> x \<notin> set keys \<longrightarrow>
         map_of (ownProps r) x = map_of (ownProps acc) x)"
proof (induction keys arbitrary: acc)
  case Nil
  then show ?case by auto
next
  case (Cons key keys)
  from Cons.prems(2) obtain v acc1 where
    g: "getProp xml key = Inr v"
    and s: "setProp acc key v = Inr acc1"
    and c: "copyProps xml keys acc1 = Inr r"
    by (auto simp: andThen_eq_Inr)
  from setProp_object[OF Cons.prems(1), of key v] s have
    o1: "isObject acc1"
    and m1: "\<forall>x. x \<noteq> ''__proto__'' \<longrightarrow>
            map_of (ownProps acc1) x = (if x = key then Some v else map_of (ownProps acc) x)"
    by auto
  from Cons.IH[OF o1 c] have
    o: "isObject r"
    and a: "\<forall>x v. x \<noteq> ''__proto__'' \<longrightarrow> x \<in> set keys \<longrightarrow> getProp xml x = Inr v \<longrightarrow>
         map_of (ownProps r) x = Some v"
    and b: "\<forall>x. x \<noteq> ''__proto__'' \<longrightarrow> x \<notin> set keys \<longrightarrow>
         map_of (ownProps r) x = map_of (ownProps acc1) x"
    by auto
  show ?case
  proof (intro conjI allI impI)
    show "isObject r" by (rule o)
  next
    fix x w assume x: "x \<noteq> ''__proto__''" "x \<in> set (key # keys)" "getProp xml x = Inr w"
    show "map_of (ownProps r) x = Some w"
    proof (cases "x \<in> set keys")
      case True
      with a x show ?thesis by blast
    next
      case False
      with x have "x = key" by simp
      with g x have "w = v" by simp
      with b m1 x False \<open>x = key\<close> show ?thesis by simp
    qed
  next
    fix x assume x: "x \<noteq> ''__proto__''" "x \<notin> set (key # keys)"
    with b m1 show "map_of (ownProps r) x = map_of (ownProps acc) x" by simp
  qed
qed

lemma getProp_object:
  "isObject t \<Longrightarrow> key \<noteq> ''__proto__'' \<Longrightarrow>
   getProp t key = Inr (case findProp t key of Some v \<Rightarrow> v | None \<Rightarrow> JUndefined)"
  by (cases t) simp_all

lemma getProp_object_Inr: "isObject t \<Longrightarrow> \<exists>v. getProp t key = Inr v"
  by (cases t) simp_all

lemma copyProps_succeeds:
  "isObject acc \<Longrightarrow> isObject xml \<Longrightarrow> \<exists>r. copyProps xml keys acc = Inr r"
proof (induction keys arbitrary: acc)
  case Nil
  then show ?case by simp
next
  case (Cons key keys)
  from getProp_object_Inr[OF Cons.prems(2), of key] obtain v where
    g: "getProp xml key = Inr v" by blast
  from setProp_object[OF Cons.prems(1), of key v] obtain acc1 where
    s: "setProp acc key v = Inr acc1" "isObject acc1" by blast
  from Cons.IH[OF s(2) Cons.prems(2)] g s(1) show ?case by simp
qed

lemma findProp_own:
  "isObject t \<Longrightarrow> map_of (ownProps t) x = Some v \<Longrightarrow> findProp t x = Some v"
  by (cases t) simp_all

lemma findProp_in_objectKeys:
  "findProp t x = Some v \<Longrightarrow> x \<in> set (objectKeys t)"
proof (induction t x rule: findProp.induct)
  case (1 kind props key)
  then have "key \<in> fst ` set props"
    using map_of_eq_None_iff[of props key] by auto
  then show ?case by simp
next
  case (2 kind p props key)
  show ?case
  proof (cases "key \<in> fst ` set props")
    case True
    then show ?thesis by simp
  next
    case False
    then have n: "map_of props key = None" by (simp add: map_of_eq_None_iff)
    with "2.prems" have "findProp p key = Some v" by simp
    with "2.IH"[OF n] False show ?thesis by simp
  qed
qed simp_all

lemma findProp_isObject: "findProp t x = Some v \<Longrightarrow> isObject t"
  by (cases t) simp_all

lemma forInKeys_object: "isObject t \<Longrightarrow> forInKeys t = objectKeys t"
  by (cases t) simp_all

lemma map_of_in_keys: "key \<in> fst ` set props \<Longrightarrow> \<exists>v. map_of props key = Some v"
  by (cases "map_of props key") (auto simp: map_of_eq_None_iff)

lemma map_of_not_in_keys: "key \<notin> fst ` set props \<Longrightarrow> map_of props key = None"
  by (simp add: map_of_eq_None_iff)

lemma replaceFound_found:
  "findProp t key = Some v0 \<Longrightarrow> findProp (replaceFound t key v) key = Some v"
proof (induction t key rule: findProp.induct)
  case (1 kind props key)
  then have "key \<in> fst ` set props"
    using map_of_not_in_keys[of key props] by auto
  then show ?case by (simp add: update_conv')
next
  case (2 kind p props key)
  show ?case
  proof (cases "key \<in> fst ` set props")
    case True
    then show ?thesis by (simp add: update_conv')
  next
    case False
    then have n: "map_of props key = None" by (rule map_of_not_in_keys)
    with "2.prems" have "findProp p key = Some v0" by simp
    with "2.IH"[OF n] n False show ?thesis by simp
  qed
qed simp_all

lemma isObject_replaceFound [simp]: "isObject (replaceFound t key v) = isObject t"
  by (cases t) simp_all

lemma objectKeys_found:
  "x \<in> set (objectKeys t) \<Longrightarrow> \<exists>v. findProp t x = Some v"
proof (induction t x rule: findProp.induct)
  case (1 kind props key)
  then show ?case using map_of_in_keys[of key props] by simp
next
  case (2 kind p props key)
  show ?case
  proof (cases "key \<in> fst ` set props")
    case True
    then show ?thesis using map_of_in_keys[of key props] by auto
  next
    case False
    then have n: "map_of props key = None" by (rule map_of_not_in_keys)
    from "2.prems" False have "key \<in> set (objectKeys p)" by auto
    from "2.IH"[OF n this] n show ?thesis by simp
  qed
qed simp_all

lemma copyProps_default_prototype:
  "''__proto__'' \<notin> set keys \<Longrightarrow> copyProps xml keys (JObj kind acc) = Inr r \<Longrightarrow>
   \<exists>ps. r = JObj kind ps"
proof (induction keys arbitrary: acc)
  case Nil
  then show ?case by auto
next
  case (Cons key keys)
  from Cons.prems(1) have k: "key \<noteq> ''__proto__''" "''__proto__'' \<notin> set keys" by auto
  from Cons.prems(2) k(1) obtain v where
    "copyProps xml keys (JObj kind (AList.update key v acc)) = Inr r"
    by (auto simp: andThen_eq_Inr)
  with Cons.IH[OF k(2)] show ?case by blast
qed

subsection \<open>The shape of a merged tree\<close>

lemma updateManifestObject_shape:
  assumes "updateManifestObject xml d = Inr t"
  shows "\<exists>manifest attrs pkg.
            t = JObj PlainObject [(''manifest'', manifest)]
          \<and> isObject manifest
          \<and> findProp manifest ''$'' = Some attrs
          \<and> isObject attrs
          \<and> map_of (ownProps attrs) ''package'' = Some pkg
          \<and> (truthy pkg \<or> pkg = JStr d)"
proof -
  from assms obtain m pkg xml1 where
    sel: "(if truthy m then
          andThen (getProp m ''$'') (\<lambda>attrs.
          andThen (getProp attrs ''package'') (\<lambda>p.
          Inr (if truthy p then p else JStr d, m)))
        else Inr (JStr d, xml)) = Inr (pkg, xml1)"
    and rest: "andThen (copyProps xml1 (forInKeys xml1) (JObj PlainObject [])) (\<lambda>manifest.
     andThen (getProp manifest ''$'') (\<lambda>attrs.
     andThen (setProp attrs ''package'' pkg) (\<lambda>attrs1.
     Inr (JObj PlainObject [(''manifest'', replaceFound manifest ''$'' attrs1)])))) = Inr t"
    by (auto simp: updateManifestObject_def andThen_eq_Inr)
  have pkg: "truthy pkg \<or> pkg = JStr d"
    using sel by (auto simp: andThen_eq_Inr split: if_splits)
  from rest obtain manifest attrs0 attrs1 where
    c: "copyProps xml1 (forInKeys xml1) (JObj PlainObject []) = Inr manifest"
    and g: "getProp manifest ''$'' = Inr attrs0"
    and s1: "setProp attrs0 ''package'' pkg = Inr attrs1"
    and t: "t = JObj PlainObject [(''manifest'', replaceFound manifest ''$'' attrs1)]"
    by (auto simp: andThen_eq_Inr)
  have om: "isObject manifest"
    using copyProps_result[OF _ c] by simp
  have oa: "isObject attrs0"
    using s1 by (rule setProp_Inr_object)
  from g om have "(case findProp manifest ''$'' of Some v \<Rightarrow> v | None \<Rightarrow> JUndefined) = attrs0"
    by (simp add: getProp_object)
  with oa have f: "findProp manifest ''$'' = Some attrs0"
    by (cases "findProp manifest ''$''") auto
  from s1 oa have a1: "attrs1 = withOwnProps attrs0 (AList.update ''package'' pkg (ownProps attrs0))"
    by (simp add: setProp_plain_key)
  have "findProp (replaceFound manifest ''$'' attrs1) ''$'' = Some attrs1"
    using f by (rule replaceFound_found)
  moreover have "isObject attrs1" using a1 oa by simp
  moreover have "map_of (ownProps attrs1) ''package'' = Some pkg"
    using a1 oa by (simp add: update_conv')
  ultimately show ?thesis using t om pkg by auto
qed

lemma packageOf_shape:
  assumes "isObject manifest" and "findProp manifest ''$'' = Some attrs"
    and "isObject attrs" and "map_of (ownProps attrs) ''package'' = Some pkg"
  shows "packageOf (JObj PlainObject [(''manifest'', manifest)]) = Inr pkg"
  using assms findProp_own[OF assms(3,4)]
  by (simp add: packageOf_def getProp_object)

lemma updateManifestObject_manifest_node:
  assumes "getProp xml ''manifest'' = Inr m"
    and "isObject m"
    and "findProp m ''$'' = Some attrs"
    and "isObject attrs"
  shows "\<exists>t. updateManifestObject xml d = Inr t
         \<and> packageOf t = Inr (case findProp attrs ''package'' of
                               Some p \<Rightarrow> if truthy p then p else JStr d
                             | None \<Rightarrow> JStr d)"
proof -
  let ?pkg = "case findProp attrs ''package'' of
                Some p \<Rightarrow> if truthy p then p else JStr d
              | None \<Rightarrow> JStr d"
  have tm: "truthy m" using assms(2) by (cases m) simp_all
  have g1: "getProp m ''$'' = Inr attrs"
    using assms(2,3) by (simp add: getProp_object)
  have g2: "getProp attrs ''package'' =
      Inr (case findProp attrs ''package'' of Some v \<Rightarrow> v | None \<Rightarrow> JUndefined)"
    using assms(4) by (simp add: getProp_object)
  have sel: "(if truthy m then
          andThen (getProp m ''$'') (\<lambda>attrs.
          andThen (getProp attrs ''package'') (\<lambda>p.
          Inr (if truthy p then p else JStr d, m)))
        else Inr (JStr d, xml)) = Inr (?pkg, m)"
    using tm g1 g2 by (auto split: option.splits)
  from copyProps_succeeds[of "JObj PlainObject []" m "forInKeys m"] assms(2)
  obtain manifest where c: "copyProps m (forInKeys m) (JObj PlainObject []) = Inr manifest"
    by auto
  have om: "isObject manifest" using copyProps_result[OF _ c] by simp
  have "''$'' \<in> set (forInKeys m)"
    using findProp_in_objectKeys[OF assms(3)] assms(2) by (simp add: forInKeys_object)
  with copyProps_result[OF _ c] g1 have "map_of (ownProps manifest) ''$'' = Some attrs"
    by simp
  with om have f: "findProp manifest ''$'' = Some attrs" by (rule findProp_own)
  with om have g3: "getProp manifest ''$'' = Inr attrs" by (simp add: getProp_object)
  let ?attrs1 = "withOwnProps attrs (AList.update ''package'' ?pkg (ownProps attrs))"
  have s1: "setProp attrs ''package'' ?pkg = Inr ?attrs1"
    using assms(4) by (simp add: setProp_plain_key)
  let ?t = "JObj PlainObject [(''manifest'', replaceFound manifest ''$'' ?attrs1)]"
  have r: "updateManifestObject xml d = Inr ?t"
    unfolding updateManifestObject_def using assms(1) sel c g3 s1 by simp
  have "packageOf ?t = Inr ?pkg"
  proof (rule packageOf_shape)
    show "isObject (replaceFound manifest ''$'' ?attrs1)" using om by simp
    show "findProp (replaceFound manifest ''$'' ?attrs1) ''$'' = Some ?attrs1"
      using f by (rule replaceFound_found)
    show "isObject ?attrs1" using assms(4) by simp
    show "map_of (ownProps ?attrs1) ''package'' = Some ?pkg"
      using assms(4) by (simp add: update_conv')
  qed
  with r show ?thesis by blast
qed

text \<open>
  Where the \<open>manifest\<close> node of the parsed manifest is an element with an attribute
  container \<open>$\<close>, the merge succeeds: a non-empty \<open>package\<close> attribute is kept, and an
  empty or missing one gives way to the default identifier.
\<close>

lemma updateManifestContent_package_precedence:
  assumes "parseString oldManifestContent = Inr (JObj kind root)"
    and "map_of root ''manifest'' = Some (JObj mkind node)"
    and "map_of node ''$'' = Some (JObj akind attrs)"
  shows "\<exists>newManifest.
           updateManifestContent parseString buildObject oldManifestContent d
             = Inr (buildObject newManifest)
         \<and> (\<forall>p. map_of attrs ''package'' = Some (JStr p) \<and> p \<noteq> [] \<longrightarrow>
                packageOf newManifest = Inr (JStr p))
         \<and> (map_of attrs ''package'' = Some (JStr []) \<or> map_of attrs ''package'' = None \<longrightarrow>
                packageOf newManifest = Inr (JStr d))"
proof -
  have g: "getProp (JObj kind root) ''manifest'' = Inr (JObj mkind node)"
    using assms(2) by simp
  from updateManifestObject_manifest_node[OF g, of "JObj akind attrs" d] assms(3)
  obtain t where t: "updateManifestObject (JObj kind root) d = Inr t"
    "packageOf t = Inr (case map_of attrs ''package'' of
                               Some p \<Rightarrow> if truthy p then p else JStr d
                             | None \<Rightarrow> JStr d)"
    by auto
  have "updateManifestContent parseString buildObject oldManifestContent d = Inr (buildObject t)"
    using assms(1) t(1) by (simp add: updateManifestContent_def getXml_def)
  with t(2) show ?thesis by auto
qed

text \<open>
  A parsed object without \<open>$\<close> and without a truthy \<open>manifest\<close>, and without a key
  \<open>__proto__\<close> that would give the new \<open>manifest\<close> object a prototype, makes the merge
  throw: nothing creates the attribute container.
\<close>

lemma updateManifestObject_no_container:
  assumes "isObject xml"
    and "findProp xml ''$'' = None"
    and "''__proto__'' \<notin> set (objectKeys xml)"
    and "\<forall>m. findProp xml ''manifest'' = Some m \<longrightarrow> \<not> truthy m"
  shows "updateManifestObject xml d = Inl TypeError"
proof -
  obtain m where g: "getProp xml ''manifest'' = Inr m" and m: "\<not> truthy m"
    using assms(1,4) by (cases "findProp xml ''manifest''") (auto simp: getProp_object)
  from copyProps_succeeds[of "JObj PlainObject []" xml "forInKeys xml"] assms(1)
  obtain manifest where c: "copyProps xml (forInKeys xml) (JObj PlainObject []) = Inr manifest"
    by auto
  from copyProps_default_prototype[OF _ c] assms(1,3) obtain ps where
    ps: "manifest = JObj PlainObject ps"
    by (auto simp: forInKeys_object)
  have "''$'' \<notin> set (forInKeys xml)"
    using objectKeys_found[of "''$''" xml] assms(1,2) by (auto simp: forInKeys_object)
  with copyProps_result[OF _ c] have "map_of (ownProps manifest) ''$'' = None"
    by simp
  with ps have "getProp manifest ''$'' = Inr JUndefined" by simp
  with g m c show ?thesis
    by (simp add: updateManifestObject_def)
qed

subsection \<open>Claims about the manifest merger\<close>

text \<open>
  C3 does not hold of the code. A manifest whose \<open>manifest\<close> element has no attribute at
  all, only an \<open>application\<close> child, has no \<open>package\<close> attribute, so the claim asks for
  the default identifier. The parsed \<open>manifest\<close> node has no \<open>$\<close> property, the read of
  \<open>package\<close> from it throws a \<open>TypeError\<close>, and no manifest results.
\<close>

theorem updateManifestContent_manifest_without_attributes:
  "updateManifestContent
     (\<lambda>text. Inr (JObj PlainObject [(''manifest'', JObj PlainObject
        [(''application'', JObj ArrayObject [(''0'', JStr [])])])]))
     buildObject oldManifestContent defaultPackageName
   = Inl TypeError"
  by (simp add: updateManifestContent_def getXml_def updateManifestObject_def)

text \<open>
  C8. When the parser rejects the existing content, \<open>updateManifestContent\<close> fails
  with the very value the parser rejected it with; nothing is merged and the builder
  builds no manifest.
\<close>

theorem updateManifestContent_parse_failure:
  assumes "parseString oldManifestContent = Inl err"
  shows "updateManifestContent parseString buildObject oldManifestContent d = Inl (Rejected err)"
  using assms by (simp add: updateManifestContent_def getXml_def)

theorem updateManifestContent_parse_failure_witness:
  "updateManifestContent (\<lambda>text. Inl (JStr ''Unclosed root tag'')) (\<lambda>tree. ''manifest'')
     ''<manifest'' ''org.nativescript.plugin''
   = Inl (Rejected (JStr ''Unclosed root tag''))"
  by (rule updateManifestContent_parse_failure[
        where parseString = "\<lambda>text. Inl (JStr ''Unclosed root tag'')", OF refl])

text \<open>
  C9. Let merging the existing manifest with the default identifier succeed with a
  tree \<open>merged\<close>, and let the parser read the built text of \<open>merged\<close> back as \<open>merged\<close>
  (the builder and the parser are inverse on it). Then merging the built text again with
  the same default succeeds, and its tree has the same \<open>package\<close> attribute as
  \<open>merged\<close>.
\<close>

theorem updateManifestContent_remerge_package:
  assumes "parseString oldManifestContent = Inr xml"
    and "updateManifestObject xml d = Inr merged"
    and "parseString (buildObject merged) = Inr merged"
  shows "updateManifestContent parseString buildObject oldManifestContent d
           = Inr (buildObject merged)
         \<and> (\<exists>remerged pkg.
               updateManifestContent parseString buildObject (buildObject merged) d
                 = Inr (buildObject remerged)
             \<and> packageOf merged = Inr pkg \<and> packageOf remerged = Inr pkg)"
proof -
  from updateManifestObject_shape[OF assms(2)] obtain manifest attrs pkg where
    t: "merged = JObj PlainObject [(''manifest'', manifest)]"
    and om: "isObject manifest"
    and f: "findProp manifest ''$'' = Some attrs"
    and oa: "isObject attrs"
    and p: "map_of (ownProps attrs) ''package'' = Some pkg"
    and v: "truthy pkg \<or> pkg = JStr d"
    by blast
  have g: "getProp merged ''manifest'' = Inr manifest"
    unfolding t by simp
  have fp: "findProp attrs ''package'' = Some pkg"
    using oa p by (rule findProp_own)
  from updateManifestObject_manifest_node[OF g om f oa, of d] fp obtain remerged where
    r: "updateManifestObject merged d = Inr remerged"
    and pr: "packageOf remerged = Inr (if truthy pkg then pkg else JStr d)"
    by auto
  from v have same: "(if truthy pkg then pkg else JStr d) = pkg" by auto
  have first: "updateManifestContent parseString buildObject oldManifestContent d
           = Inr (buildObject merged)"
    using assms(1,2) by (simp add: updateManifestContent_def getXml_def)
  have second: "updateManifestContent parseString buildObject (buildObject merged) d
      = Inr (buildObject remerged)"
    using assms(3) r by (simp add: updateManifestContent_def getXml_def)
  have p1: "packageOf merged = Inr pkg"
    unfolding t using om f oa p by (rule packageOf_shape)
  from first second p1 pr same show ?thesis by auto
qed

theorem updateManifestContent_remerge_package_witness:
  "updateManifestContent
     (\<lambda>text. if text = ''old'' then
          Inr (JObj PlainObject [(''manifest'', JObj PlainObject
            [(''$'', JObj PlainObject [(''xmlns:android'', JStr ''uri'')])])])
        else
          Inr (JObj PlainObject [(''manifest'', JObj PlainObject
            [(''$'', JObj PlainObject [(''xmlns:android'', JStr ''uri''),
                                       (''package'', JStr ''org.nativescript.plugin'')])])]))
     (\<lambda>tree. ''new'') ''old'' ''org.nativescript.plugin''
   = Inr ''new''
   \<and> (\<exists>remerged.
        updateManifestContent
          (\<lambda>text. if text = ''old'' then
               Inr (JObj PlainObject [(''manifest'', JObj PlainObject
                 [(''$'', JObj PlainObject [(''xmlns:android'', JStr ''uri'')])])])
             else
               Inr (JObj PlainObject [(''manifest'', JObj PlainObject
                 [(''$'', JObj PlainObject [(''xmlns:android'', JStr ''uri''),
                                            (''package'', JStr ''org.nativescript.plugin'')])])]))
          (\<lambda>tree. ''new'') ''new'' ''org.nativescript.plugin''
          = Inr ((\<lambda>tree. ''new'') remerged)
      \<and> packageOf remerged = Inr (JStr ''org.nativescript.plugin''))"
proof -
  let ?t0 = "JObj PlainObject [(''manifest'', JObj PlainObject
            [(''$'', JObj PlainObject [(''xmlns:android'', JStr ''uri'')])])]"
  let ?t1 = "JObj PlainObject [(''manifest'', JObj PlainObject
            [(''$'', JObj PlainObject [(''xmlns:android'', JStr ''uri''),
                                       (''package'', JStr ''org.nativescript.plugin'')])])]"
  let ?parse = "\<lambda>text. if text = ''old'' then Inr ?t0 else Inr ?t1 :: jsval + jsval"
  have h1: "?parse ''old'' = Inr ?t0" by simp
  have h2: "updateManifestObject ?t0 ''org.nativescript.plugin'' = Inr ?t1"
    by (simp add: updateManifestObject_def)
  have h3: "?parse ((\<lambda>tree. ''new'') ?t1) = Inr ?t1" by simp
  have p: "packageOf ?t1 = Inr (JStr ''org.nativescript.plugin'')"
    by (simp add: packageOf_def)
  from updateManifestContent_remerge_package[
      where parseString = ?parse and buildObject = "\<lambda>tree. ''new''", OF h1 h2 h3]
  obtain remerged pkg where
    a: "updateManifestContent ?parse (\<lambda>tree. ''new'') ''old'' ''org.nativescript.plugin''
          = Inr ''new''"
    and b: "updateManifestContent ?parse (\<lambda>tree. ''new'') ''new'' ''org.nativescript.plugin''
          = Inr ((\<lambda>tree. ''new'') remerged)"
    and c: "packageOf ?t1 = Inr pkg" "packageOf remerged = Inr pkg"
    by blast
  from c p have "packageOf remerged = Inr (JStr ''org.nativescript.plugin'')" by simp
  with a b show ?thesis by blast
qed

text \<open>
  C2 does not hold of the code. A fragment that consists of one \<open>uses-permission\<close>
  element with an \<open>android:name\<close> attribute parses to an object whose only top-level key
  is \<open>uses-permission\<close>. The new \<open>manifest\<close> object then has no \<open>$\<close>
  property, no attribute container is created, and the write of \<open>package\<close> throws a
  \<open>TypeError\<close>.
\<close>

theorem updateManifestContent_fragment_throws:
  "updateManifestContent
     (\<lambda>text. Inr (JObj PlainObject [(''uses-permission'', JObj PlainObject
        [(''$'', JObj PlainObject [(''android:name'', JStr ''android.permission.CAMERA'')])])]))
     buildObject oldManifestContent defaultPackageName
   = Inl TypeError"
  by (simp add: updateManifestContent_def getXml_def updateManifestObject_def)

text \<open>
  C4 does not hold of the code, for the reason C2 does not: for a fragment that
  consists of an \<open>application\<close> element with a \<open>package\<close> attribute and an \<open>activity\<close>
  child, the merge throws a \<open>TypeError\<close> and yields no manifest, so no \<open>package\<close> equal to
  the default.
\<close>

theorem updateManifestContent_fragment_no_default_package:
  "updateManifestContent
     (\<lambda>text. Inr (JObj PlainObject [(''application'', JObj PlainObject
        [(''$'', JObj PlainObject [(''package'', JStr ''com.nested'')]),
         (''activity'', JObj ArrayObject [(''0'', JStr [])])])]))
     buildObject oldManifestContent defaultPackageName
   = Inl TypeError"
  by (simp add: updateManifestContent_def getXml_def updateManifestObject_def)

text \<open>
  C5 does not hold of the code. \<open>createManifestContent\<close> puts the static
  \<open>MANIFEST_ROOT\<close> itself into \<open>newManifest\<close> and writes \<open>package\<close> through it: after a
  call from the initial state the template has a \<open>package\<close> attribute that it did not have
  before.
\<close>

theorem createManifestContent_writes_template:
  "createManifestContent buildObject initialState ''org.nativescript.plugin''
     = Inr (buildObject (JObj PlainObject [(''manifest'', JObj PlainObject [(''$'', JObj PlainObject
              [(''xmlns:android'', JStr ''http://schemas.android.com/apk/res/android''),
               (''package'', JStr ''org.nativescript.plugin'')])])]),
            \<lparr> heap = [[(''xmlns:android'', HStr ''http://schemas.android.com/apk/res/android''),
                        (''package'', HStr ''org.nativescript.plugin'')],
                       [(''$'', HRef 0)],
                       [(''manifest'', HRef 1)]],
              MANIFEST_ROOT = HRef 1 \<rparr>)
   \<and> manifestRootValue initialState
     = JObj PlainObject [(''$'', JObj PlainObject
         [(''xmlns:android'', JStr ''http://schemas.android.com/apk/res/android'')])]
   \<and> manifestRootValue
       \<lparr> heap = [[(''xmlns:android'', HStr ''http://schemas.android.com/apk/res/android''),
                   (''package'', HStr ''org.nativescript.plugin'')],
                  [(''$'', HRef 0)],
                  [(''manifest'', HRef 1)]],
         MANIFEST_ROOT = HRef 1 \<rparr>
     = JObj PlainObject [(''$'', JObj PlainObject
         [(''xmlns:android'', JStr ''http://schemas.android.com/apk/res/android''),
          (''package'', JStr ''org.nativescript.plugin'')])]"
  by (simp add: createManifestContent_def initialState_def manifestRootValue_def Let_def)

end
